theory Spec2Isabelle
  imports Main "HOL-Library.Word"
begin

section \<open>JavaScript values\<close>

text \<open>
  A JavaScript string is a sequence of UTF-16 code units. \<open>ustr\<close> writes an ASCII
  literal of the source as such a sequence.
\<close>

type_synonym code_unit = "16 word"
type_synonym jsstring = "code_unit list"

definition ustr :: "string \<Rightarrow> jsstring" where
  "ustr s = map of_char s"

text \<open>
  The values that reach \<open>authorize\<close> and its handlers. \<open>JError m\<close> is an \<open>Error\<close>
  object with message \<open>m\<close>, \<open>JTypeError\<close> the \<open>TypeError\<close> the engine raises on a
  property read of \<open>undefined\<close> or \<open>null\<close>, \<open>JFunction\<close> a callable, \<open>JObject\<close> a plain
  object given by its own properties.
\<close>

datatype jsval =
    JUndefined
  | JNull
  | JBool bool
  | JNum int
  | JStr jsstring
  | JError jsstring
  | JTypeError
  | JFunction nat
  | JObject "(jsstring \<times> jsval) list"

text \<open>\<open>ToBoolean\<close>: what \<open>if (v)\<close> and \<open>!v\<close> test.\<close>

fun truthy :: "jsval \<Rightarrow> bool" where
  "truthy JUndefined = False"
| "truthy JNull = False"
| "truthy (JBool b) = b"
| "truthy (JNum n) = (n \<noteq> 0)"
| "truthy (JStr s) = (s \<noteq> [])"
| "truthy (JError m) = True"
| "truthy JTypeError = True"
| "truthy (JFunction f) = True"
| "truthy (JObject ps) = True"

text \<open>\<open>typeof v === 'function'\<close>.\<close>

fun is_function :: "jsval \<Rightarrow> bool" where
  "is_function (JFunction f) = True"
| "is_function v = False"

text \<open>\<open>v != null\<close> (loose inequality: false for \<open>null\<close> and for \<open>undefined\<close>).\<close>

fun not_nullish :: "jsval \<Rightarrow> bool" where
  "not_nullish JUndefined = False"
| "not_nullish JNull = False"
| "not_nullish v = True"

text \<open>
  The property read \<open>v.k\<close>: a \<open>TypeError\<close> on \<open>undefined\<close> and \<open>null\<close>, the property of
  an object, \<open>undefined\<close> where there is none.
\<close>

fun get_prop :: "jsval \<Rightarrow> jsstring \<Rightarrow> jsval + jsval" where
  "get_prop JUndefined k = Inl JTypeError"
| "get_prop JNull k = Inl JTypeError"
| "get_prop (JObject ps) k = (case map_of ps k of None \<Rightarrow> Inr JUndefined | Some v \<Rightarrow> Inr v)"
| "get_prop v k = Inr JUndefined"

section \<open>The session store\<close>

text \<open>
  \<open>./session\<close> is required by the coordinator and is not among the sources. Its state
  and its three operations follow section 4.1 of the specification.
\<close>

record session_store =
  isAuthorizing :: bool
  isClosing :: bool

text \<open>Modelled from the spec: \<open>./session\<close> is missing; \<open>clean()\<close> unconditionally sets
  \<open>isAuthorizing=false\<close>, \<open>isClosing=false\<close>.\<close>

definition session_clean :: "session_store \<Rightarrow> session_store" where
  "session_clean s = \<lparr>isAuthorizing = False, isClosing = False\<rparr>"

text \<open>Modelled from the spec: \<open>./session\<close> is missing; \<open>start(onRedirect)\<close> marks
  \<open>isAuthorizing=true\<close> and registers the redirect handler. The coordinator registers one
  handler only, so the registration is the flag.\<close>

definition session_start :: "session_store \<Rightarrow> session_store" where
  "session_start s = s\<lparr>isAuthorizing := True\<rparr>"

text \<open>Modelled from the spec: \<open>./session\<close> is missing; \<open>closing()\<close> marks
  \<open>isClosing=true\<close>.\<close>

definition session_closing :: "session_store \<Rightarrow> session_store" where
  "session_closing s = s\<lparr>isClosing := True\<rparr>"

section \<open>The world of one authorization attempt\<close>

text \<open>
  Everything the coordinator does besides branching is an effect on a collaborator:
  the session store, the browser agent, the host's timers, the caller's callback. The
  effects are logged in the order in which the code performs them.
\<close>

datatype action =
    GetAgent
  | SessionStart
  | SessionClean
  | SessionClosing
  | AgentOpen jsstring
  | AgentClose
  | SetTimeout nat
  | Callback jsval

text \<open>
  \<open>getOS\<close> is what \<open>getOS()\<close> of \<open>./utils\<close> returns (a parameter of the attempt),
  \<open>now\<close> the host's clock in milliseconds, \<open>timers\<close> the due times of the pending
  \<open>setTimeout(handleClose, closingDelayMs)\<close> tasks, \<open>url\<close> and \<open>callback\<close> the arguments
  that the closures of \<open>authorize\<close> capture, \<open>acquiring\<close> whether the function passed to
  \<open>getAgent\<close> is still to be called, \<open>opened\<close> whether \<open>agent.open\<close> has been given its
  event handler.
\<close>

record world =
  session :: session_store
  getOS :: jsstring
  now :: nat
  timers :: "nat list"
  url :: jsstring
  callback :: jsval
  acquiring :: bool
  opened :: bool
  actions :: "action list"

datatype completion = Returned | Threw jsval

definition closingDelayMs :: nat where
  "closingDelayMs = 1000"

text \<open>Line 7, \<open>session.clean()\<close> at module load: the world before any attempt.\<close>

definition initial :: "jsstring \<Rightarrow> world" where
  "initial os = \<lparr>session = session_clean \<lparr>isAuthorizing = False, isClosing = False\<rparr>,
     getOS = os, now = 0, timers = [], url = [], callback = JUndefined,
     acquiring = False, opened = False, actions = []\<rparr>"

definition do_action :: "action \<Rightarrow> world \<Rightarrow> world" where
  "do_action a w = w\<lparr>actions := actions w @ [a]\<rparr>"

definition clean :: "world \<Rightarrow> world" where
  "clean w = do_action SessionClean (w\<lparr>session := session_clean (session w)\<rparr>)"

definition start :: "world \<Rightarrow> world" where
  "start w = do_action SessionStart (w\<lparr>session := session_start (session w)\<rparr>)"

definition closing :: "world \<Rightarrow> world" where
  "closing w = do_action SessionClosing (w\<lparr>session := session_closing (session w)\<rparr>)"

text \<open>\<open>callback(v)\<close>.\<close>

definition call_callback :: "jsval \<Rightarrow> world \<Rightarrow> world" where
  "call_callback v w = do_action (Callback v) w"

text \<open>\<open>setTimeout(handleClose, d)\<close>: the task is due \<open>d\<close> milliseconds from now.\<close>

definition setTimeout :: "nat \<Rightarrow> world \<Rightarrow> world" where
  "setTimeout d w = do_action (SetTimeout d) (w\<lparr>timers := timers w @ [now w + d]\<rparr>)"

text \<open>The arguments of the callback's invocations so far, in order.\<close>

fun callback_args :: "action list \<Rightarrow> jsval list" where
  "callback_args [] = []"
| "callback_args (Callback v # as) = v # callback_args as"
| "callback_args (a # as) = callback_args as"

definition calls :: "world \<Rightarrow> jsval list" where
  "calls w = callback_args (actions w)"

section \<open>The coordinator\<close>

text \<open>Lines 112 to 117.\<close>

definition handleClose :: "world \<Rightarrow> world" where
  "handleClose w =
     (if isClosing (session w)
      then call_callback (JError (ustr ''user canceled'')) (clean w)
      else w)"

text \<open>Lines 105 to 132: the function given to \<open>agent.open\<close>.\<close>

definition open_handler :: "world \<Rightarrow> jsval \<Rightarrow> jsval \<Rightarrow> completion \<times> world" where
  "open_handler w error result =
     (if not_nullish error then (Returned, call_callback error (clean w))
      else case get_prop result (ustr ''event'') of
        Inl e \<Rightarrow> (Threw e, w)
      | Inr ev \<Rightarrow>
          if ev = JStr (ustr ''closed'') then
            (let w1 = closing w in
             if getOS w1 = ustr ''ios''
             then (let w2 = handleClose w1 in
                   if ev \<noteq> JStr (ustr ''loaded'') then (Returned, w2) else (Returned, w2))
             else (Returned, setTimeout closingDelayMs w1))
          else if ev \<noteq> JStr (ustr ''loaded'') then (Returned, w)
          else (Returned, w))"

text \<open>Lines 61 to 103: the function given to \<open>session.start\<close>; it closes the agent and
  returns \<open>true\<close>.\<close>

definition redirect_hook :: "world \<Rightarrow> jsval \<Rightarrow> jsval \<Rightarrow> bool \<times> world" where
  "redirect_hook w sessionError redirectUrl = (True, do_action AgentClose w)"

text \<open>
  Lines 40 to 133: the function given to \<open>getAgent\<close>. The agent it receives with a falsy
  \<open>err\<close> is the capability whose \<open>open\<close> and \<open>close\<close> are the logged effects.
\<close>

definition getAgent_callback :: "world \<Rightarrow> jsval \<Rightarrow> world" where
  "getAgent_callback w err =
     (if truthy err then call_callback err w
      else (do_action (AgentOpen (url w)) (start w))\<lparr>opened := True\<rparr>)"

text \<open>Lines 33 to 134.\<close>

definition authorize :: "world \<Rightarrow> jsstring \<Rightarrow> jsval \<Rightarrow> completion \<times> world" where
  "authorize w u cb =
     (if \<not> truthy cb \<or> \<not> is_function cb
      then (Threw (JError (ustr ''callback not specified or is not a function'')), w)
      else (Returned, do_action GetAgent (w\<lparr>url := u, callback := cb, acquiring := True\<rparr>)))"

section \<open>The host: events of one attempt\<close>

text \<open>Modelled from the spec: \<open>./session\<close> is missing; \<open>onRedirectUri(url)\<close> reaches the
  registered hook, which returns whether it consumed the event, and a redirect event
  clears \<open>isClosing\<close> (P4): the store is reset once the hook has consumed the redirect.\<close>

definition onRedirectUri :: "world \<Rightarrow> jsval \<Rightarrow> world" where
  "onRedirectUri w u =
     (if isAuthorizing (session w)
      then (case redirect_hook w JNull u of (consumed, w1) \<Rightarrow> if consumed then clean w1 else w1)
      else w)"

text \<open>
  The host's timers: a pending task runs when its delay has elapsed, the tasks in the
  order of their due times. Every task of this program is \<open>handleClose\<close>, scheduled with
  one delay, so the list is in that order.
\<close>

fun run_timers :: "nat list \<Rightarrow> world \<Rightarrow> world" where
  "run_timers [] w = w"
| "run_timers (t # ts) w = run_timers ts (handleClose (w\<lparr>now := max (now w) t\<rparr>))"

definition elapse :: "nat \<Rightarrow> world \<Rightarrow> world" where
  "elapse d w =
     (let t = now w + d;
          due = filter (\<lambda>x. x \<le> t) (timers w);
          rest = filter (\<lambda>x. \<not> x \<le> t) (timers w)
      in (run_timers due (w\<lparr>timers := rest\<rparr>))\<lparr>now := t\<rparr>)"

text \<open>
  What can happen to an attempt: the agent acquisition reports (\<open>err\<close>), the agent
  reports to the handler of \<open>open\<close> (\<open>error\<close>, \<open>result\<close>), the host delivers a redirect,
  time passes. \<open>getAgent\<close> calls the function it is given once, so a second acquisition
  report reaches nothing, as does a report of the agent before \<open>open\<close> has been given
  its handler; the handler stays subscribed for the rest of the attempt. An exception
  that leaves the handler of \<open>open\<close> is the agent's to deal with.
\<close>

datatype event =
    Acquired jsval
  | AgentEvent jsval jsval
  | Redirect jsval
  | Elapse nat

fun step :: "world \<Rightarrow> event \<Rightarrow> world" where
  "step w (Acquired err) =
     (if acquiring w then getAgent_callback (w\<lparr>acquiring := False\<rparr>) err else w)"
| "step w (AgentEvent error result) =
     (if opened w then snd (open_handler w error result) else w)"
| "step w (Redirect u) = onRedirectUri w u"
| "step w (Elapse d) = elapse d w"

fun run :: "world \<Rightarrow> event list \<Rightarrow> world" where
  "run w [] = w"
| "run w (e # es) = run (step w e) es"

text \<open>One attempt: \<open>authorize(url, callback)\<close> on platform \<open>os\<close>, then the events.\<close>

definition attempt :: "jsstring \<Rightarrow> jsstring \<Rightarrow> jsval \<Rightarrow> event list \<Rightarrow> completion \<times> world" where
  "attempt os u cb es =
     (case authorize (initial os) u cb of
        (Returned, w) \<Rightarrow> (Returned, run w es)
      | (Threw e, w) \<Rightarrow> (Threw e, w))"

definition closed_event :: jsval where
  "closed_event = JObject [(ustr ''event'', JStr (ustr ''closed''))]"

definition loaded_event :: jsval where
  "loaded_event = JObject [(ustr ''event'', JStr (ustr ''loaded''))]"

text \<open>
  A terminal report of the agent: an \<open>error\<close> that is neither \<open>null\<close> nor \<open>undefined\<close>,
  or a result whose \<open>event\<close> is \<open>'closed'\<close>.
\<close>

definition terminal :: "event \<Rightarrow> bool" where
  "terminal e = (case e of
       AgentEvent error result \<Rightarrow>
         not_nullish error \<or> get_prop result (ustr ''event'') = Inr (JStr (ustr ''closed''))
     | _ \<Rightarrow> False)"

text \<open>
  The invocations of the callback that \<open>n\<close> further terminal reports can still bring
  about, counted with those made and the timers pending.
\<close>

definition pending :: "world \<Rightarrow> nat \<Rightarrow> nat" where
  "pending w n = length (calls w) + length (timers w) +
     (if opened w then n + (if acquiring w then 1 else 0)
      else if acquiring w then max 1 n else 0)"

text \<open>A world that no event can change but for its clock.\<close>

definition inert :: "world \<Rightarrow> bool" where
  "inert w = (\<not> acquiring w \<and> \<not> opened w \<and> timers w = [] \<and> \<not> isAuthorizing (session w))"

section \<open>The provider: scopes\<close>

text \<open>
  What \<open>\s\<close> matches and \<open>trim\<close> strips: the white space and line terminator code
  units of ECMAScript.
\<close>

definition is_space :: "code_unit \<Rightarrow> bool" where
  "is_space c = (c = 0x9 \<or> c = 0xA \<or> c = 0xB \<or> c = 0xC \<or> c = 0xD \<or> c = 0x20 \<or> c = 0xA0
     \<or> c = 0x1680 \<or> (0x2000 \<le> c \<and> c \<le> 0x200A) \<or> c = 0x2028 \<or> c = 0x2029
     \<or> c = 0x202F \<or> c = 0x205F \<or> c = 0x3000 \<or> c = 0xFEFF)"

definition DEFAULT_SCOPE :: jsstring where
  "DEFAULT_SCOPE = ustr ''openid profile email''"

text \<open>\<open>arr.join(sep)\<close> on an array of strings.\<close>

fun join_str :: "jsstring \<Rightarrow> jsstring list \<Rightarrow> jsstring" where
  "join_str sep [] = []"
| "join_str sep [x] = x"
| "join_str sep (x # y # ys) = x @ sep @ join_str sep (y # ys)"

text \<open>\<open>s.trim()\<close>.\<close>

definition trim :: "jsstring \<Rightarrow> jsstring" where
  "trim s = rev (dropWhile is_space (rev (dropWhile is_space s)))"

text \<open>
  \<open>s.split(/\s+/)\<close>: the pieces between the maximal runs of white space; \<open>cur\<close> is the
  piece being read. The empty string gives one empty piece, white space at either end
  an empty piece there.
\<close>

function split_ws_from :: "jsstring \<Rightarrow> jsstring \<Rightarrow> jsstring list" where
  "split_ws_from cur [] = [cur]"
| "split_ws_from cur (c # cs) =
     (if is_space c then cur # split_ws_from [] (dropWhile is_space cs)
      else split_ws_from (cur @ [c]) cs)"
  by pat_completeness auto
termination
  by (relation "measure (\<lambda>(cur, s). length s)")
     (auto simp add: le_imp_less_Suc length_dropWhile_le)

definition split_ws :: "jsstring \<Rightarrow> jsstring list" where
  "split_ws s = split_ws_from [] s"

text \<open>\<open>Array.from(new Set(arr))\<close>: a \<open>Set\<close> keeps its elements in insertion order, and
  adding an element it has changes nothing.\<close>

definition set_add :: "'a list \<Rightarrow> 'a \<Rightarrow> 'a list" where
  "set_add acc x = (if x \<in> set acc then acc else acc @ [x])"

definition dedupe :: "'a list \<Rightarrow> 'a list" where
  "dedupe arr = foldl set_add [] arr"

text \<open>Lines 186 to 188.\<close>

definition getUniqueScopes :: "jsstring list \<Rightarrow> jsstring" where
  "getUniqueScopes scopes = join_str (ustr '' '') (dedupe (split_ws (trim (join_str (ustr '' '') scopes))))"

text \<open>
  The words of the claim about \<open>getUniqueScopes\<close>, defined on their own: the
  white-space-separated tokens of a string, and a list with each element kept once, at
  its first occurrence.
\<close>

function tokens :: "jsstring \<Rightarrow> jsstring list" where
  "tokens [] = []"
| "tokens (c # cs) =
     (if is_space c then tokens cs
      else (c # takeWhile (\<lambda>x. \<not> is_space x) cs) # tokens (dropWhile (\<lambda>x. \<not> is_space x) cs))"
  by pat_completeness auto
termination
  by (relation "measure length") (auto simp add: le_imp_less_Suc length_dropWhile_le)

fun first_occurrences :: "'a list \<Rightarrow> 'a list" where
  "first_occurrences [] = []"
| "first_occurrences (x # xs) = x # first_occurrences (filter (\<lambda>y. y \<noteq> x) xs)"

section \<open>The provider: login\<close>

text \<open>
  The options objects, by the properties the provider reads or writes; \<open>None\<close> is a
  property that is absent or \<open>undefined\<close>, \<open>other\<close> the properties it only passes on.
\<close>

record login_options =
  redirectUri :: "jsstring option"
  redirect_uri :: "jsstring option"
  audience :: "jsstring option"
  scope :: "jsstring option"
  other :: "(jsstring \<times> jsval) list"

record provider_options = login_options +
  isNative :: bool

text \<open>
  The delegated OAuth client, an external library: each asynchronous method is given by
  how its promise settles, \<open>Inl\<close> the rejection. \<open>tokenError\<close> is the helper of
  \<open>./utils\<close>, a parameter as well.
\<close>

record client =
  client_buildAuthorizeUrl :: "login_options option \<Rightarrow> jsval + jsstring"
  client_loginWithRedirect :: "login_options option \<Rightarrow> jsval + unit"
  client_getTokenWithPopup :: "login_options option \<Rightarrow> jsval \<Rightarrow> jsval + jsstring"
  client_getUser :: "jsval + jsval"

datatype client_call =
    BuildAuthorizeUrl "login_options option"
  | LoginWithRedirect "login_options option"
  | GetTokenWithPopup "login_options option" jsval
  | GetUser
  | DispatchUserUpdated jsval

record provider =
  clientOpts :: provider_options
  the_client :: client
  tokenError :: "jsval \<Rightarrow> jsval"
  userUpdatedAt :: jsval
  coordinator :: world
  client_calls :: "client_call list"

definition log_call :: "client_call \<Rightarrow> provider \<Rightarrow> provider" where
  "log_call c p = p\<lparr>client_calls := client_calls p @ [c]\<rparr>"

text \<open>Lines 338 to 349.\<close>

definition toAuth0LoginRedirectOptions :: "login_options option \<Rightarrow> login_options option" where
  "toAuth0LoginRedirectOptions opts =
     (case opts of
        None \<Rightarrow> None
      | Some r \<Rightarrow> Some (r\<lparr>redirectUri := None, redirect_uri := redirectUri r\<rparr>))"

text \<open>The arrow function that \<open>nativeLogIn\<close> gives to \<open>authorize\<close>.\<close>

definition log_outcome :: jsval where
  "log_outcome = JFunction 0"

text \<open>Lines 413 to 423.\<close>

definition nativeLogIn :: "provider \<Rightarrow> login_options option \<Rightarrow> (jsval + unit) \<times> provider" where
  "nativeLogIn p options =
     (let args = toAuth0LoginRedirectOptions options;
          p1 = log_call (BuildAuthorizeUrl args) p
      in case client_buildAuthorizeUrl (the_client p) args of
           Inl e \<Rightarrow> (Inl e, p1)
         | Inr u \<Rightarrow>
             (case authorize (coordinator p1) u log_outcome of
                (Returned, w) \<Rightarrow> (Inr (), p1\<lparr>coordinator := w\<rparr>)
              | (Threw e, w) \<Rightarrow> (Inl e, p1\<lparr>coordinator := w\<rparr>)))"

text \<open>Lines 425 to 434.\<close>

definition loginWithRedirect :: "provider \<Rightarrow> login_options option \<Rightarrow> (jsval + unit) \<times> provider" where
  "loginWithRedirect p options =
     (if isNative (clientOpts p) then nativeLogIn p options
      else (let args = toAuth0LoginRedirectOptions options
            in (client_loginWithRedirect (the_client p) args, log_call (LoginWithRedirect args) p)))"

text \<open>\<open>user?.updated_at\<close>.\<close>

definition updated_at :: "jsval \<Rightarrow> jsval" where
  "updated_at user = (case get_prop user (ustr ''updated_at'') of Inl e \<Rightarrow> JUndefined | Inr v \<Rightarrow> v)"

text \<open>Lines 488 to 506.\<close>

definition getAccessTokenWithPopup ::
    "provider \<Rightarrow> login_options option \<Rightarrow> jsval \<Rightarrow> (jsval + jsstring) \<times> provider" where
  "getAccessTokenWithPopup p opts config =
     (let p1 = log_call (GetTokenWithPopup opts config) p
      in case client_getTokenWithPopup (the_client p) opts config of
           Inl e \<Rightarrow> (Inl (tokenError p e), p1)
         | Inr token \<Rightarrow>
             (let p2 = log_call GetUser p1
              in case client_getUser (the_client p) of
                   Inl e \<Rightarrow> (Inl e, p2)
                 | Inr user \<Rightarrow>
                     if updated_at user \<noteq> userUpdatedAt p
                     then (Inr token, log_call (DispatchUserUpdated user) p2)
                     else (Inr token, p2)))"

text \<open>\<open>a || b\<close> on optional strings: the empty string is falsy as \<open>undefined\<close> is.\<close>

definition or_else :: "jsstring option \<Rightarrow> jsstring option \<Rightarrow> jsstring option" where
  "or_else a b = (case a of None \<Rightarrow> b | Some s \<Rightarrow> if s = [] then b else Some s)"

definition or_default :: "jsstring option \<Rightarrow> jsstring \<Rightarrow> jsstring" where
  "or_default a d = (case a of None \<Rightarrow> d | Some s \<Rightarrow> if s = [] then d else s)"

text \<open>Lines 514 to 520: the options of the native login; \<open>{ ...opts }\<close> of an absent
  \<open>opts\<close> is the empty object.\<close>

definition relogin_options :: "provider_options \<Rightarrow> login_options option \<Rightarrow> login_options" where
  "relogin_options copts opts =
     (let options = (case opts of
                       None \<Rightarrow> \<lparr>redirectUri = None, redirect_uri = None, audience = None,
                                 scope = None, other = []\<rparr>
                     | Some r \<Rightarrow> r);
          options = options\<lparr>audience :=
                      or_else (case opts of None \<Rightarrow> None | Some r \<Rightarrow> audience r) (audience copts)\<rparr>
      in options\<lparr>scope := Some (getUniqueScopes
           [DEFAULT_SCOPE,
            or_default (or_else (scope options) (scope copts)) DEFAULT_SCOPE])\<rparr>)"

text \<open>Lines 508 to 529; \<open>null\<close> is \<open>None\<close>.\<close>

definition tryGetAccessTokenWithPopupOrReLogin ::
    "provider \<Rightarrow> login_options option \<Rightarrow> (jsval + jsstring option) \<times> provider" where
  "tryGetAccessTokenWithPopupOrReLogin p opts =
     (if \<not> isNative (clientOpts p)
      then (case getAccessTokenWithPopup p opts JUndefined of
              (Inl e, p1) \<Rightarrow> (Inl e, p1)
            | (Inr token, p1) \<Rightarrow> (Inr (Some token), p1))
      else (case nativeLogIn p (Some (relogin_options (clientOpts p) opts)) of
              (Inl e, p1) \<Rightarrow> (Inl (tokenError p e), p1)
            | (Inr u, p1) \<Rightarrow> (Inr None, p1)))"

text \<open>
  A provider to run the login operations on: its client resolves every promise, the
  coordinator has made no attempt yet.
\<close>

definition sample_client :: client where
  "sample_client = \<lparr>client_buildAuthorizeUrl = (\<lambda>a. Inr (ustr ''https://tenant.example/authorize'')),
     client_loginWithRedirect = (\<lambda>a. Inr ()),
     client_getTokenWithPopup = (\<lambda>a c. Inr (ustr ''token'')),
     client_getUser = Inr JUndefined\<rparr>"

definition sample_provider :: "bool \<Rightarrow> provider" where
  "sample_provider native = \<lparr>clientOpts = \<lparr>redirectUri = None, redirect_uri = None,
       audience = None, scope = Some (ustr ''read:x openid''), other = [], isNative = native\<rparr>,
     the_client = sample_client, tokenError = (\<lambda>e. e), userUpdatedAt = JUndefined,
     coordinator = initial (ustr ''android''), client_calls = []\<rparr>"

section \<open>Properties of the coordinator\<close>

lemmas effect_defs = do_action_def clean_def start_def closing_def call_callback_def
  setTimeout_def session_clean_def session_start_def session_closing_def

lemmas run_defs = attempt_def authorize_def initial_def getAgent_callback_def open_handler_def
  handleClose_def onRedirectUri_def redirect_hook_def elapse_def closingDelayMs_def
  closed_event_def loaded_event_def effect_defs calls_def Let_def

lemma callback_args_append: "callback_args (xs @ ys) = callback_args xs @ callback_args ys"
  by (induction xs rule: callback_args.induct) simp_all

lemma handleClose_fields:
  "timers (handleClose w) = timers w" "opened (handleClose w) = opened w"
  "acquiring (handleClose w) = acquiring w" "now (handleClose w) = now w"
  "getOS (handleClose w) = getOS w"
  by (simp_all add: handleClose_def effect_defs)

lemma handleClose_calls: "length (calls (handleClose w)) \<le> Suc (length (calls w))"
  by (simp add: handleClose_def effect_defs calls_def callback_args_append)

lemma run_timers_fields:
  "timers (run_timers ts w) = timers w" "opened (run_timers ts w) = opened w"
  "acquiring (run_timers ts w) = acquiring w"
  by (induction ts arbitrary: w) (simp_all add: handleClose_fields)

lemma calls_now_update: "calls (w\<lparr>now := t\<rparr>) = calls w" "calls (w\<lparr>timers := ts\<rparr>) = calls w"
  by (simp_all add: calls_def)

lemma run_timers_calls: "length (calls (run_timers ts w)) \<le> length (calls w) + length ts"
proof (induction ts arbitrary: w)
  case Nil
  then show ?case by simp
next
  case (Cons t ts)
  have "length (calls (run_timers ts (handleClose (w\<lparr>now := max (now w) t\<rparr>))))
        \<le> length (calls (handleClose (w\<lparr>now := max (now w) t\<rparr>))) + length ts"
    by (rule Cons.IH)
  also have "\<dots> \<le> Suc (length (calls (w\<lparr>now := max (now w) t\<rparr>))) + length ts"
    using handleClose_calls [of "w\<lparr>now := max (now w) t\<rparr>"] by simp
  finally show ?case by (simp add: calls_now_update)
qed

lemma run_timers_not_closing:
  "\<not> isClosing (session w) \<Longrightarrow> run_timers ts w = w\<lparr>now := foldl max (now w) ts\<rparr>"
  by (induction ts arbitrary: w) (simp_all add: handleClose_def)

text \<open>No event raises \<open>pending\<close>; a terminal report uses up one of the \<open>n\<close>.\<close>

lemma elapse_pending: "pending (elapse d w) n \<le> pending w n"
proof -
  let ?t = "now w + d"
  let ?due = "filter (\<lambda>x. x \<le> ?t) (timers w)"
  let ?rest = "filter (\<lambda>x. \<not> x \<le> ?t) (timers w)"
  let ?w' = "run_timers ?due (w\<lparr>timers := ?rest\<rparr>)"
  have c: "length (calls ?w') \<le> length (calls w) + length ?due"
    using run_timers_calls [of ?due "w\<lparr>timers := ?rest\<rparr>"] by (simp add: calls_now_update)
  have l: "length ?due + length ?rest = length (timers w)"
    by (rule sum_length_filter_compl)
  have e: "elapse d w = ?w'\<lparr>now := ?t\<rparr>"
    by (simp add: elapse_def Let_def)
  show ?thesis
    unfolding e pending_def using c l
    by (simp add: run_timers_fields calls_now_update)
qed

lemma open_handler_pending:
  "opened w \<Longrightarrow>
   pending (snd (open_handler w error result)) n
     \<le> pending w (n + (if terminal (AgentEvent error result) then 1 else 0))"
  by (cases "get_prop result (ustr ''event'')")
     (auto simp add: open_handler_def handleClose_def pending_def terminal_def effect_defs
        calls_def callback_args_append Let_def)

lemma step_pending: "pending (step w e) n \<le> pending w (n + (if terminal e then 1 else 0))"
proof (cases e)
  case (Acquired err)
  then show ?thesis
    by (auto simp add: pending_def terminal_def getAgent_callback_def effect_defs calls_def
          callback_args_append)
next
  case (AgentEvent error result)
  then show ?thesis
    using open_handler_pending [of w error result n] by (auto simp add: pending_def)
next
  case (Redirect u)
  then show ?thesis
    by (simp add: pending_def terminal_def onRedirectUri_def redirect_hook_def effect_defs calls_def
          callback_args_append)
next
  case (Elapse d)
  then show ?thesis
    using elapse_pending [of d w n] by (simp add: terminal_def)
qed

lemma pending_mono: "m \<le> n \<Longrightarrow> pending w m \<le> pending w n"
  by (auto simp add: pending_def)

lemma run_pending: "length (calls (run w es)) \<le> pending w (length (filter terminal es))"
proof (induction es arbitrary: w)
  case Nil
  then show ?case by (simp add: pending_def)
next
  case (Cons e es)
  have "length (calls (run (step w e) es)) \<le> pending (step w e) (length (filter terminal es))"
    by (rule Cons.IH)
  also have "\<dots> \<le> pending w (length (filter terminal es) + (if terminal e then 1 else 0))"
    by (rule step_pending)
  finally show ?case by (cases "terminal e") simp_all
qed

lemma step_inert:
  "inert w \<Longrightarrow> inert (step w e) \<and> actions (step w e) = actions w \<and> session (step w e) = session w"
  by (cases e) (simp_all add: inert_def onRedirectUri_def elapse_def)

lemma run_inert:
  "inert w \<Longrightarrow> inert (run w es) \<and> actions (run w es) = actions w \<and> session (run w es) = session w"
proof (induction es arbitrary: w)
  case Nil
  then show ?case by simp
next
  case (Cons e es)
  from step_inert [OF Cons.prems, of e] Cons.IH [of "step w e"]
  show ?case by simp
qed







text \<open>
  C1, as stated, fails: on iOS an open error followed by a \<open>'closed'\<close> event invokes the
  callback twice, first with the agent's error and then with \<open>user canceled\<close>. Nothing in
  \<open>authorize\<close> remembers that the callback has been invoked.
\<close>

theorem callback_twice_counterexample:
  "calls (snd (attempt (ustr ''ios'') (ustr ''https://tenant.example/authorize'') (JFunction 0)
      [Acquired JNull, AgentEvent (JError (ustr ''load failed'')) JNull,
       AgentEvent JNull closed_event]))
   = [JError (ustr ''load failed''), JError (ustr ''user canceled'')]"
  by (simp add: run_defs ustr_def)

text \<open>
  C1, amended: for a callable callback and every sequence of events in which the agent
  makes at most one terminal report (an open error or a \<open>'closed'\<close> event), whatever
  the acquisition result, the other events, the redirects and the timers, the callback
  is invoked at most once. The bound is kept by a count that no event raises: the
  invocations made, the timers pending and the terminal reports still to come.
\<close>

theorem callback_at_most_once:
  "is_function cb \<Longrightarrow> length (filter terminal es) \<le> 1 \<Longrightarrow>
   length (calls (snd (attempt os u cb es))) \<le> 1"
proof -
  assume f: "is_function cb" and t: "length (filter terminal es) \<le> 1"
  obtain k where cb: "cb = JFunction k" using f by (cases cb) simp_all
  let ?w = "do_action GetAgent ((initial os)\<lparr>url := u, callback := cb, acquiring := True\<rparr>)"
  have a: "attempt os u cb es = (Returned, run ?w es)"
    by (simp add: attempt_def authorize_def cb)
  have "length (calls (run ?w es)) \<le> pending ?w (length (filter terminal es))"
    by (rule run_pending)
  also have "\<dots> \<le> pending ?w 1"
    using t by (rule pending_mono)
  also have "\<dots> = 1"
    by (simp add: pending_def initial_def do_action_def calls_def)
  finally show ?thesis by (simp add: a)
qed

theorem callback_at_most_once_witness:
  "is_function (JFunction 0)
   \<and> length (filter terminal [Acquired JNull, AgentEvent JNull loaded_event,
                              AgentEvent JNull closed_event, Elapse 1000]) \<le> 1
   \<and> length (calls (snd (attempt (ustr ''android'') (ustr ''https://tenant.example/authorize'')
        (JFunction 0)
        [Acquired JNull, AgentEvent JNull loaded_event, AgentEvent JNull closed_event,
         Elapse 1000]))) \<le> 1"
proof -
  have f: "is_function (JFunction 0)" by simp
  have t: "length (filter terminal [Acquired JNull, AgentEvent JNull loaded_event,
                              AgentEvent JNull closed_event, Elapse 1000]) \<le> 1"
    by (simp add: terminal_def closed_event_def loaded_event_def ustr_def)
  from f t callback_at_most_once [OF f t] show ?thesis by simp
qed

text \<open>
  C2: on iOS, a \<open>'closed'\<close> event is confirmed within the handler's own turn. The
  handler marks the session closing, cleans it and invokes the callback with the error
  \<open>user canceled\<close>, in that order; it sets no timer and changes nothing else.
\<close>

theorem ios_closed_confirms_synchronously:
  "getOS w = ustr ''ios'' \<Longrightarrow> \<not> not_nullish error \<Longrightarrow>
   get_prop result (ustr ''event'') = Inr (JStr (ustr ''closed'')) \<Longrightarrow>
   open_handler w error result =
     (Returned, w\<lparr>session := \<lparr>isAuthorizing = False, isClosing = False\<rparr>,
                  actions := actions w @ [SessionClosing, SessionClean,
                                          Callback (JError (ustr ''user canceled''))]\<rparr>)"
  by (simp add: open_handler_def handleClose_def effect_defs Let_def)

theorem ios_closed_confirms_synchronously_witness:
  "getOS (initial (ustr ''ios'')) = ustr ''ios'' \<and> \<not> not_nullish JNull
   \<and> get_prop closed_event (ustr ''event'') = Inr (JStr (ustr ''closed''))
   \<and> open_handler (initial (ustr ''ios'')) JNull closed_event =
     (Returned, (initial (ustr ''ios''))\<lparr>session := \<lparr>isAuthorizing = False, isClosing = False\<rparr>,
                  actions := actions (initial (ustr ''ios'')) @ [SessionClosing, SessionClean,
                                          Callback (JError (ustr ''user canceled''))]\<rparr>)"
proof -
  have a: "getOS (initial (ustr ''ios'')) = ustr ''ios''" by (simp add: initial_def)
  have b: "\<not> not_nullish JNull" by simp
  have c: "get_prop closed_event (ustr ''event'') = Inr (JStr (ustr ''closed''))"
    by (simp add: closed_event_def)
  from a b c ios_closed_confirms_synchronously [OF a b c] show ?thesis by simp
qed



text \<open>
  C4: once \<open>isClosing\<close> has been cleared, the deferred confirmation does nothing: run
  by itself it leaves the world as it is, and when time passes only the clock and the list
  of pending timers change, so the session is not cleaned and the callback is not
  invoked.
\<close>

theorem cleared_flag_makes_confirmation_noop:
  assumes "\<not> isClosing (session w)"
  shows "handleClose w = w
     \<and> elapse d w = w\<lparr>timers := filter (\<lambda>x. \<not> x \<le> now w + d) (timers w), now := now w + d\<rparr>"
  using assms by (simp add: handleClose_def elapse_def Let_def run_timers_not_closing)

theorem cleared_flag_makes_confirmation_noop_witness:
  "\<not> isClosing (session (snd (attempt (ustr ''android'') (ustr ''https://tenant.example/authorize'')
        (JFunction 0)
        [Acquired JNull, AgentEvent JNull closed_event, Elapse 400,
         Redirect (JStr (ustr ''app://callback''))])))
   \<and> calls (elapse 600 (snd (attempt (ustr ''android'') (ustr ''https://tenant.example/authorize'')
        (JFunction 0)
        [Acquired JNull, AgentEvent JNull closed_event, Elapse 400,
         Redirect (JStr (ustr ''app://callback''))]))) = []"
proof -
  let ?w = "snd (attempt (ustr ''android'') (ustr ''https://tenant.example/authorize'')
        (JFunction 0)
        [Acquired JNull, AgentEvent JNull closed_event, Elapse 400,
         Redirect (JStr (ustr ''app://callback''))])"
  have a: "\<not> isClosing (session ?w)"
    by (simp add: run_defs ustr_def)
  have c: "calls ?w = []"
    by (simp add: run_defs ustr_def)
  from a c cleared_flag_makes_confirmation_noop [OF a, of 600] show ?thesis
    by (simp add: calls_def)
qed

text \<open>
  C5: with a callback that is missing or not a function, \<open>authorize\<close> throws the error
  \<open>callback not specified or is not a function\<close> and leaves the world as it was: an
  attempt made this way has performed no action, whatever events follow, and its session
  store is clean.
\<close>

theorem authorize_rejects_non_function:
  "\<not> truthy cb \<or> \<not> is_function cb \<Longrightarrow>
   authorize w u cb = (Threw (JError (ustr ''callback not specified or is not a function'')), w)
   \<and> attempt os u cb es
       = (Threw (JError (ustr ''callback not specified or is not a function'')), initial os)
   \<and> actions (snd (attempt os u cb es)) = []
   \<and> session (snd (attempt os u cb es)) = \<lparr>isAuthorizing = False, isClosing = False\<rparr>"
  by (auto simp add: authorize_def attempt_def initial_def session_clean_def)

theorem authorize_rejects_non_function_witness:
  "\<not> truthy JUndefined \<and> \<not> is_function JUndefined
   \<and> authorize (initial (ustr ''ios'')) (ustr ''https://tenant.example/authorize'') JUndefined
       = (Threw (JError (ustr ''callback not specified or is not a function'')),
          initial (ustr ''ios''))
   \<and> actions (snd (attempt (ustr ''ios'') (ustr ''https://tenant.example/authorize'') JUndefined
        [Acquired JNull])) = []"
proof -
  have h: "\<not> truthy JUndefined \<or> \<not> is_function JUndefined" by simp
  from h authorize_rejects_non_function [OF h, of "initial (ustr ''ios'')"
      "ustr ''https://tenant.example/authorize''" "ustr ''ios''" "[Acquired JNull]"]
  show ?thesis by (simp add: initial_def)
qed

text \<open>
  C6: when the acquisition reports a truthy \<open>err\<close>, the function given to \<open>getAgent\<close>
  invokes the callback with \<open>err\<close> and does nothing else. Over the whole attempt, whatever
  events follow, the actions are the acquisition and that one invocation: the session is
  never started and stays clean, and no agent is opened.
\<close>

theorem acquisition_failure_reported_once:
  assumes "is_function cb" and "truthy err"
  shows "getAgent_callback w err = w\<lparr>actions := actions w @ [Callback err]\<rparr>
     \<and> fst (attempt os u cb (Acquired err # es)) = Returned
     \<and> actions (snd (attempt os u cb (Acquired err # es))) = [GetAgent, Callback err]
     \<and> calls (snd (attempt os u cb (Acquired err # es))) = [err]
     \<and> session (snd (attempt os u cb (Acquired err # es)))
         = \<lparr>isAuthorizing = False, isClosing = False\<rparr>
     \<and> \<not> opened (snd (attempt os u cb (Acquired err # es)))"
proof -
  obtain k where cb: "cb = JFunction k" using assms(1) by (cases cb) simp_all
  let ?w1 = "do_action GetAgent ((initial os)\<lparr>url := u, callback := cb, acquiring := True\<rparr>)"
  let ?w2 = "step ?w1 (Acquired err)"
  have a: "attempt os u cb (Acquired err # es) = (Returned, run ?w2 es)"
    by (simp add: attempt_def authorize_def cb)
  have w2: "actions ?w2 = [GetAgent, Callback err]"
    "session ?w2 = \<lparr>isAuthorizing = False, isClosing = False\<rparr>"
    using assms(2) by (simp_all add: getAgent_callback_def effect_defs initial_def)
  have i: "inert ?w2"
    using assms(2) by (simp add: inert_def getAgent_callback_def effect_defs initial_def)
  have g: "getAgent_callback w err = w\<lparr>actions := actions w @ [Callback err]\<rparr>"
    using assms(2) by (simp add: getAgent_callback_def effect_defs)
  from run_inert [OF i, of es] w2 a g show ?thesis
    by (simp add: calls_def inert_def)
qed

theorem acquisition_failure_reported_once_witness:
  "is_function (JFunction 0) \<and> truthy (JError (ustr ''NetworkDown''))
   \<and> actions (snd (attempt (ustr ''android'') (ustr ''https://tenant.example/authorize'')
        (JFunction 0)
        [Acquired (JError (ustr ''NetworkDown'')), AgentEvent JNull closed_event, Elapse 1000]))
       = [GetAgent, Callback (JError (ustr ''NetworkDown''))]
   \<and> session (snd (attempt (ustr ''android'') (ustr ''https://tenant.example/authorize'')
        (JFunction 0)
        [Acquired (JError (ustr ''NetworkDown'')), AgentEvent JNull closed_event, Elapse 1000]))
       = \<lparr>isAuthorizing = False, isClosing = False\<rparr>"
proof -
  have f: "is_function (JFunction 0)" by simp
  have t: "truthy (JError (ustr ''NetworkDown''))" by simp
  from f t acquisition_failure_reported_once [OF f t, of "initial (ustr ''android'')"
      "ustr ''android''" "ustr ''https://tenant.example/authorize''"
      "[AgentEvent JNull closed_event, Elapse 1000]"]
  show ?thesis by simp
qed

text \<open>
  C7: when the agent reports an error that is neither \<open>null\<close> nor \<open>undefined\<close>, the
  handler of \<open>open\<close> cleans the session store and then invokes the callback with that
  error; these two actions, in this order, are all it does.
\<close>

theorem open_error_cleans_then_reports:
  "not_nullish error \<Longrightarrow>
   open_handler w error result =
     (Returned, w\<lparr>session := \<lparr>isAuthorizing = False, isClosing = False\<rparr>,
                  actions := actions w @ [SessionClean, Callback error]\<rparr>)"
  by (simp add: open_handler_def effect_defs)

theorem open_error_cleans_then_reports_witness:
  "not_nullish (JError (ustr ''load failed''))
   \<and> open_handler (initial (ustr ''android'')) (JError (ustr ''load failed'')) JNull =
     (Returned, (initial (ustr ''android''))\<lparr>session := \<lparr>isAuthorizing = False, isClosing = False\<rparr>,
        actions := [SessionClean, Callback (JError (ustr ''load failed''))]\<rparr>)"
proof -
  have h: "not_nullish (JError (ustr ''load failed''))" by simp
  from h open_error_cleans_then_reports [OF h, of "initial (ustr ''android'')" JNull]
  show ?thesis by (simp add: initial_def)
qed

section \<open>Properties of the provider\<close>

lemma is_space_sp [simp]: "is_space 0x20"
  by (simp add: is_space_def)

lemma ustr_space: "ustr '' '' = [0x20]"
  by (simp add: ustr_def)

lemma tokens_all_space: "\<forall>c\<in>set w. is_space c \<Longrightarrow> tokens w = []"
  by (induction w) simp_all

lemma tokens_append_space:
  "is_space c \<Longrightarrow> tokens (x @ c # y) = tokens x @ tokens y"
proof (induction x rule: tokens.induct)
  case 1
  then show ?case by simp
next
  case (2 a as)
  show ?case
  proof (cases "is_space a")
    case True
    with 2 show ?thesis by simp
  next
    case False
    let ?P = "\<lambda>x. \<not> is_space x"
    have tw: "takeWhile ?P (as @ c # y) = takeWhile ?P as"
      using 2(3) by (simp add: takeWhile_append) (metis takeWhile_eq_all_conv)
    have dw: "tokens (dropWhile ?P (as @ c # y)) = tokens (dropWhile ?P as) @ tokens y"
    proof (cases "\<forall>x\<in>set as. ?P x")
      case True
      then have d0: "dropWhile ?P as = []" by simp
      from True have d1: "dropWhile ?P (as @ c # y) = dropWhile ?P (c # y)"
        by (simp add: dropWhile_append)
      show ?thesis unfolding d0 d1 using 2(3) by simp
    next
      case f: False
      then have "dropWhile ?P (as @ c # y) = dropWhile ?P as @ c # y"
        by (auto simp add: dropWhile_append)
      then show ?thesis using 2(2) [OF False 2(3)] by simp
    qed
    from False tw dw show ?thesis by simp
  qed
qed

lemma tokens_append_spaces: "\<forall>c\<in>set w. is_space c \<Longrightarrow> tokens (x @ w) = tokens x"
  by (cases w) (simp_all add: tokens_append_space tokens_all_space)

lemma tokens_dropWhile_space: "tokens (dropWhile is_space s) = tokens s"
  by (induction s) simp_all

lemma tokens_join: "tokens (join_str [0x20] ss) = concat (map tokens ss)"
  by (induction "[0x20 :: code_unit]" ss rule: join_str.induct)
     (simp_all add: tokens_append_space)

lemma rev_dropWhile_takeWhile: "rev (dropWhile P (rev a)) @ rev (takeWhile P (rev a)) = a"
proof -
  have "rev (takeWhile P (rev a) @ dropWhile P (rev a)) = a"
    by (simp only: takeWhile_dropWhile_id rev_rev_ident)
  then show ?thesis by (simp only: rev_append)
qed

lemma trim_decomp:
  "dropWhile is_space s = trim s @ rev (takeWhile is_space (rev (dropWhile is_space s)))"
  unfolding trim_def by (rule rev_dropWhile_takeWhile [symmetric])

lemma tokens_trim: "tokens (trim s) = tokens s"
proof -
  have "\<forall>c\<in>set (rev (takeWhile is_space (rev (dropWhile is_space s)))). is_space c"
    by (auto dest: set_takeWhileD)
  then have "tokens (trim s @ rev (takeWhile is_space (rev (dropWhile is_space s)))) = tokens (trim s)"
    by (rule tokens_append_spaces)
  then show ?thesis using trim_decomp [of s] by (simp add: tokens_dropWhile_space)
qed


lemma tokens_nonspace_head:
  "\<not> is_space c \<Longrightarrow> tokens (c # cs) = takeWhile (\<lambda>x. \<not> is_space x) (c # cs)
      # tokens (dropWhile (\<lambda>x. \<not> is_space x) (c # cs))"
  by simp

lemma split_ws_from_tokens:
  "s = [] \<or> \<not> is_space (last s) \<Longrightarrow>
   split_ws_from cur s = (cur @ takeWhile (\<lambda>x. \<not> is_space x) s)
      # tokens (dropWhile (\<lambda>x. \<not> is_space x) s)"
proof (induction cur s rule: split_ws_from.induct)
  case (1 cur)
  then show ?case by simp
next
  case (2 cur c cs)
  show ?case
  proof (cases "is_space c")
    case True
    let ?u = "dropWhile is_space cs"
    from 2(3) True have cs: "cs \<noteq> []" "\<not> is_space (last cs)" by (auto split: if_splits)
    then have u: "?u \<noteq> []"
      by (metis dropWhile_eq_Nil_conv last_in_set)
    have lu: "last ?u = last cs"
      using u by (metis append_take_drop_id dropWhile_eq_drop last_appendR)
    obtain a as where ua: "?u = a # as" using u by (cases ?u) auto
    have a: "\<not> is_space a" using ua by (metis hd_dropWhile list.sel(1) u)
    have "split_ws_from [] ?u = ([] @ takeWhile (\<lambda>x. \<not> is_space x) ?u)
            # tokens (dropWhile (\<lambda>x. \<not> is_space x) ?u)"
      using 2(1) [OF True] u lu cs by simp
    also have "\<dots> = tokens ?u"
      unfolding ua using a by simp
    also have "\<dots> = tokens cs" by (rule tokens_dropWhile_space)
    finally show ?thesis using True by simp
  next
    case False
    with 2(3) have "cs = [] \<or> \<not> is_space (last cs)" by (auto split: if_splits)
    from 2(2) [OF False this] False show ?thesis by simp
  qed
qed

lemma trim_last: "trim s = [] \<or> \<not> is_space (last (trim s))"
proof (cases "trim s = []")
  case True
  then show ?thesis by simp
next
  case False
  then have "dropWhile is_space (rev (dropWhile is_space s)) \<noteq> []" by (simp add: trim_def)
  then have "\<not> is_space (hd (dropWhile is_space (rev (dropWhile is_space s))))"
    by (rule hd_dropWhile)
  then show ?thesis using False by (simp add: trim_def last_rev)
qed

lemma trim_hd: "trim s \<noteq> [] \<Longrightarrow> \<not> is_space (hd (trim s))"
proof -
  assume n: "trim s \<noteq> []"
  have d: "dropWhile is_space s = trim s @ rev (takeWhile is_space (rev (dropWhile is_space s)))"
    by (rule trim_decomp)
  from n d have "hd (dropWhile is_space s) = hd (trim s)" by (metis hd_append2)
  moreover from n d have "dropWhile is_space s \<noteq> []" by (metis append_is_Nil_conv)
  ultimately show ?thesis by (metis hd_dropWhile)
qed

lemma split_ws_trim:
  "split_ws (trim s) = (if tokens s = [] then [[]] else tokens s)"
proof (cases "trim s")
  case Nil
  then have "tokens s = []" using tokens_trim [of s] by simp
  with Nil show ?thesis by (simp add: split_ws_def)
next
  case (Cons c cs)
  then have c: "\<not> is_space c" using trim_hd [of s] by simp
  have "split_ws (trim s) = takeWhile (\<lambda>x. \<not> is_space x) (trim s)
      # tokens (dropWhile (\<lambda>x. \<not> is_space x) (trim s))"
    unfolding split_ws_def using split_ws_from_tokens [OF trim_last, of "[]" s] by simp
  also have "\<dots> = tokens (trim s)"
    unfolding Cons using c by simp
  finally have "split_ws (trim s) = tokens s" by (simp add: tokens_trim)
  moreover have "tokens s \<noteq> []" using tokens_trim [of s] Cons c by (metis list.discI tokens_nonspace_head)
  ultimately show ?thesis by simp
qed

lemma foldl_set_add:
  "foldl set_add acc xs = acc @ first_occurrences (filter (\<lambda>x. x \<notin> set acc) xs)"
proof (induction xs arbitrary: acc)
  case Nil
  then show ?case by simp
next
  case (Cons x xs)
  show ?case
  proof (cases "x \<in> set acc")
    case True
    then show ?thesis using Cons [of acc] by (simp add: set_add_def)
  next
    case False
    have "filter (\<lambda>y. y \<noteq> x) (filter (\<lambda>x. x \<notin> set acc) xs)
          = filter (\<lambda>y. y \<notin> set (acc @ [x])) xs"
      by (induction xs) auto
    then show ?thesis using False Cons [of "acc @ [x]"] by (simp add: set_add_def)
  qed
qed

lemma dedupe_first_occurrences: "dedupe xs = first_occurrences xs"
  by (simp add: dedupe_def foldl_set_add)

lemma set_first_occurrences: "set (first_occurrences xs) = set xs"
  by (induction xs rule: first_occurrences.induct) auto

lemma distinct_first_occurrences: "distinct (first_occurrences xs)"
  by (induction xs rule: first_occurrences.induct) (auto simp add: set_first_occurrences)

lemma first_occurrences_distinct: "distinct xs \<Longrightarrow> first_occurrences xs = xs"
proof (induction xs)
  case Nil
  then show ?case by simp
next
  case (Cons a xs)
  then have "filter (\<lambda>y. y \<noteq> a) xs = xs" by (auto simp add: filter_id_conv)
  with Cons show ?case by simp
qed

lemma getUniqueScopes_tokens:
  "getUniqueScopes ss = join_str (ustr '' '') (first_occurrences (concat (map tokens ss)))"
proof -
  let ?s = "join_str [0x20] ss"
  have t: "tokens ?s = concat (map tokens ss)" by (rule tokens_join)
  have "getUniqueScopes ss
      = join_str [0x20] (first_occurrences (if tokens ?s = [] then [[]] else tokens ?s))"
    by (simp add: getUniqueScopes_def ustr_space split_ws_trim dedupe_first_occurrences)
  also have "\<dots> = join_str [0x20] (first_occurrences (tokens ?s))"
    by (cases "tokens ?s = []") simp_all
  finally show ?thesis by (simp only: t ustr_space)
qed

lemma tokens_are_words:
  "w \<in> set (tokens s) \<Longrightarrow> w \<noteq> [] \<and> (\<forall>c\<in>set w. \<not> is_space c)"
proof (induction s rule: tokens.induct)
  case 1
  then show ?case by simp
next
  case (2 c cs)
  show ?case
  proof (cases "is_space c")
    case True
    with 2(3) have "w \<in> set (tokens cs)" by simp
    with 2(1) [OF True] show ?thesis .
  next
    case False
    let ?P = "\<lambda>x. \<not> is_space x"
    from False 2(3) have "w = c # takeWhile ?P cs \<or> w \<in> set (tokens (dropWhile ?P cs))"
      by simp
    then show ?thesis
    proof
      assume w: "w = c # takeWhile ?P cs"
      have "\<forall>x\<in>set (takeWhile ?P cs). \<not> is_space x"
        by (blast dest: set_takeWhileD)
      with w False show ?thesis by simp
    next
      assume "w \<in> set (tokens (dropWhile ?P cs))"
      with 2(2) [OF False] show ?thesis .
    qed
  qed
qed

lemma tokens_word: "w \<noteq> [] \<Longrightarrow> \<forall>c\<in>set w. \<not> is_space c \<Longrightarrow> tokens w = [w]"
proof (cases w)
  case Nil
  assume "w \<noteq> []"
  with Nil show ?thesis by simp
next
  case (Cons a as)
  assume "\<forall>c\<in>set w. \<not> is_space c"
  with Cons have a: "\<not> is_space a" and as: "\<forall>c\<in>set as. \<not> is_space c" by simp_all
  from as have t: "takeWhile (\<lambda>x. \<not> is_space x) as = as"
    and d: "dropWhile (\<lambda>x. \<not> is_space x) as = []"
    by simp_all
  have "tokens (a # as) = [a # as]"
    using a by (simp only: tokens.simps t d if_False)
  with Cons show ?thesis by simp
qed

lemma concat_map_tokens_words:
  "\<forall>w\<in>set ws. w \<noteq> [] \<and> (\<forall>c\<in>set w. \<not> is_space c) \<Longrightarrow> concat (map tokens ws) = ws"
  by (induction ws) (simp_all add: tokens_word)

lemma tokens_getUniqueScopes:
  "tokens (getUniqueScopes ss) = first_occurrences (concat (map tokens ss))"
proof -
  let ?ws = "first_occurrences (concat (map tokens ss))"
  have "\<forall>w\<in>set ?ws. w \<noteq> [] \<and> (\<forall>c\<in>set w. \<not> is_space c)"
    unfolding set_first_occurrences using tokens_are_words by auto
  then have "concat (map tokens ?ws) = ?ws" by (rule concat_map_tokens_words)
  then show ?thesis
    by (simp only: getUniqueScopes_tokens ustr_space tokens_join)
qed

text \<open>
  C9: \<open>getUniqueScopes\<close> returns the white-space-separated tokens of its arguments, in
  order, each kept once at its first occurrence, joined by single spaces. The tokens of
  the result are these, they are distinct and the same set as the tokens of the
  arguments; applied to its own result, the function returns it unchanged.
\<close>

theorem getUniqueScopes_first_occurrences_idempotent:
  "getUniqueScopes ss = join_str (ustr '' '') (first_occurrences (concat (map tokens ss)))
   \<and> tokens (getUniqueScopes ss) = first_occurrences (concat (map tokens ss))
   \<and> distinct (tokens (getUniqueScopes ss))
   \<and> set (tokens (getUniqueScopes ss)) = set (concat (map tokens ss))
   \<and> getUniqueScopes [getUniqueScopes ss] = getUniqueScopes ss"
proof -
  let ?ws = "first_occurrences (concat (map tokens ss))"
  have a: "getUniqueScopes ss = join_str (ustr '' '') ?ws" by (rule getUniqueScopes_tokens)
  have b: "tokens (getUniqueScopes ss) = ?ws" by (rule tokens_getUniqueScopes)
  have "getUniqueScopes [getUniqueScopes ss]
      = join_str (ustr '' '') (first_occurrences (concat (map tokens [getUniqueScopes ss])))"
    by (rule getUniqueScopes_tokens)
  also have "\<dots> = join_str (ustr '' '') (first_occurrences ?ws)"
    by (simp add: b)
  also have "\<dots> = join_str (ustr '' '') ?ws"
    by (simp add: first_occurrences_distinct distinct_first_occurrences)
  finally have c: "getUniqueScopes [getUniqueScopes ss] = getUniqueScopes ss"
    by (simp only: a)
  from a b c show ?thesis
    by (simp add: distinct_first_occurrences set_first_occurrences)
qed

theorem getUniqueScopes_first_occurrences_idempotent_witness:
  "getUniqueScopes [ustr ''openid profile email'', ustr '' read:x  openid '']
     = ustr ''openid profile email read:x''
   \<and> getUniqueScopes [getUniqueScopes [ustr ''openid profile email'', ustr '' read:x  openid '']]
     = ustr ''openid profile email read:x''"
proof -
  let ?ss = "[ustr ''openid profile email'', ustr '' read:x  openid '']"
  have a: "getUniqueScopes ?ss = ustr ''openid profile email read:x''"
    by (simp add: getUniqueScopes_def ustr_def trim_def split_ws_def is_space_def dedupe_def set_add_def)
  note th = getUniqueScopes_first_occurrences_idempotent [of ?ss]
  have b: "getUniqueScopes [getUniqueScopes ?ss] = getUniqueScopes ?ss"
    using th by (elim conjE)
  from a b show ?thesis by (simp only:)
qed

lemma tokens_DEFAULT_SCOPE:
  "tokens DEFAULT_SCOPE = [ustr ''openid'', ustr ''profile'', ustr ''email'']"
  by (simp add: DEFAULT_SCOPE_def ustr_def is_space_def)

lemma relogin_scope:
  "\<exists>s. scope (relogin_options copts opts) = Some s
     \<and> take 3 (tokens s) = [ustr ''openid'', ustr ''profile'', ustr ''email'']"
proof -
  obtain x where s: "scope (relogin_options copts opts) = Some (getUniqueScopes [DEFAULT_SCOPE, x])"
    by (simp add: relogin_options_def Let_def)
  have "tokens (getUniqueScopes [DEFAULT_SCOPE, x])
      = first_occurrences ([ustr ''openid'', ustr ''profile'', ustr ''email''] @ tokens x)"
    by (simp add: tokens_getUniqueScopes tokens_DEFAULT_SCOPE)
  then have "take 3 (tokens (getUniqueScopes [DEFAULT_SCOPE, x]))
      = [ustr ''openid'', ustr ''profile'', ustr ''email'']"
    by (simp add: ustr_def)
  with s show ?thesis by blast
qed

lemmas sample_defs = sample_provider_def sample_client_def

lemma authorize_log_outcome:
  "authorize w u log_outcome
    = (Returned, do_action GetAgent (w\<lparr>url := u, callback := log_outcome, acquiring := True\<rparr>))"
  by (simp add: authorize_def log_outcome_def)

lemma nativeLogIn_calls:
  "client_calls (snd (nativeLogIn p options))
     = client_calls p @ [BuildAuthorizeUrl (toAuth0LoginRedirectOptions options)]"
  by (simp add: nativeLogIn_def Let_def log_call_def authorize_log_outcome split: sum.splits)

lemma nativeLogIn_resolved:
  "client_buildAuthorizeUrl (the_client p) (toAuth0LoginRedirectOptions options) = Inr u \<Longrightarrow>
   nativeLogIn p options =
     (Inr (), p\<lparr>coordinator := snd (authorize (coordinator p) u log_outcome),
                client_calls := client_calls p @ [BuildAuthorizeUrl (toAuth0LoginRedirectOptions options)]\<rparr>)"
  by (simp add: nativeLogIn_def Let_def log_call_def authorize_log_outcome)

lemma nativeLogIn_rejected:
  "client_buildAuthorizeUrl (the_client p) (toAuth0LoginRedirectOptions options) = Inl e \<Longrightarrow>
   nativeLogIn p options =
     (Inl e, p\<lparr>client_calls := client_calls p @ [BuildAuthorizeUrl (toAuth0LoginRedirectOptions options)]\<rparr>)"
  by (simp add: nativeLogIn_def Let_def log_call_def)

text \<open>
  C8: with \<open>isNative\<close> set, \<open>loginWithRedirect\<close> makes one call of the client,
  \<open>buildAuthorizeUrl\<close>, and when that resolves with a URL it calls the coordinator's
  \<open>authorize\<close> with this URL, which starts an attempt; the client's \<open>loginWithRedirect\<close>
  is not called. Without \<open>isNative\<close> its one call is the client's \<open>loginWithRedirect\<close>,
  whose outcome it returns, and the coordinator is left as it was.
\<close>

theorem loginWithRedirect_native_or_delegated:
  "(isNative (clientOpts p) \<longrightarrow>
      client_calls (snd (loginWithRedirect p options))
        = client_calls p @ [BuildAuthorizeUrl (toAuth0LoginRedirectOptions options)]
      \<and> (client_buildAuthorizeUrl (the_client p) (toAuth0LoginRedirectOptions options) = Inr u \<longrightarrow>
           fst (loginWithRedirect p options) = Inr ()
           \<and> authorize (coordinator p) u log_outcome
               = (Returned, coordinator (snd (loginWithRedirect p options)))
           \<and> actions (coordinator (snd (loginWithRedirect p options)))
               = actions (coordinator p) @ [GetAgent]
           \<and> url (coordinator (snd (loginWithRedirect p options))) = u))
   \<and> (\<not> isNative (clientOpts p) \<longrightarrow>
        loginWithRedirect p options
          = (client_loginWithRedirect (the_client p) (toAuth0LoginRedirectOptions options),
             p\<lparr>client_calls := client_calls p
                  @ [LoginWithRedirect (toAuth0LoginRedirectOptions options)]\<rparr>)
        \<and> coordinator (snd (loginWithRedirect p options)) = coordinator p)"
  by (simp add: loginWithRedirect_def nativeLogIn_calls nativeLogIn_resolved authorize_log_outcome
        log_call_def do_action_def Let_def)

theorem loginWithRedirect_native_or_delegated_witness:
  "isNative (clientOpts (sample_provider True))
   \<and> client_buildAuthorizeUrl (the_client (sample_provider True)) (toAuth0LoginRedirectOptions None)
       = Inr (ustr ''https://tenant.example/authorize'')
   \<and> client_calls (snd (loginWithRedirect (sample_provider True) None)) = [BuildAuthorizeUrl None]
   \<and> actions (coordinator (snd (loginWithRedirect (sample_provider True) None))) = [GetAgent]
   \<and> url (coordinator (snd (loginWithRedirect (sample_provider True) None)))
       = ustr ''https://tenant.example/authorize''
   \<and> \<not> isNative (clientOpts (sample_provider False))
   \<and> loginWithRedirect (sample_provider False) None
       = (Inr (), (sample_provider False)\<lparr>client_calls := [LoginWithRedirect None]\<rparr>)"
proof -
  have n: "isNative (clientOpts (sample_provider True))" by (simp add: sample_defs)
  have b: "client_buildAuthorizeUrl (the_client (sample_provider True))
             (toAuth0LoginRedirectOptions None) = Inr (ustr ''https://tenant.example/authorize'')"
    by (simp add: sample_defs)
  have w: "\<not> isNative (clientOpts (sample_provider False))" by (simp add: sample_defs)
  have c: "client_calls (sample_provider native) = []" 
    "actions (coordinator (sample_provider native)) = []" for native
    by (simp_all add: sample_defs initial_def)
  have r: "client_loginWithRedirect (the_client (sample_provider False)) a = Inr ()" for a
    by (simp add: sample_defs)
  note t = loginWithRedirect_native_or_delegated
    [of "sample_provider True" None "ustr ''https://tenant.example/authorize''"]
  note f = loginWithRedirect_native_or_delegated [of "sample_provider False" None]
  from n b t have 1: "client_calls (snd (loginWithRedirect (sample_provider True) None))
       = [BuildAuthorizeUrl None]"
    by (simp add: c toAuth0LoginRedirectOptions_def)
  from n b t have 2: "actions (coordinator (snd (loginWithRedirect (sample_provider True) None)))
       = [GetAgent]"
    by (simp add: c)
  from n b t have 3: "url (coordinator (snd (loginWithRedirect (sample_provider True) None)))
       = ustr ''https://tenant.example/authorize''"
    by simp
  from w f have 4: "loginWithRedirect (sample_provider False) None
       = (Inr (), (sample_provider False)\<lparr>client_calls := [LoginWithRedirect None]\<rparr>)"
    by (simp add: c r toAuth0LoginRedirectOptions_def)
  from n b w 1 2 3 4 show ?thesis by (simp only: simp_thms)
qed

text \<open>
  C10: \<open>tryGetAccessTokenWithPopupOrReLogin\<close> resolves with a token exactly when
  \<open>isNative\<close> is not set and \<open>getAccessTokenWithPopup\<close> resolves with that token. With
  \<open>isNative\<close> set it resolves with \<open>null\<close> or rejects with a token error, having done
  what the native login does on options whose scope begins with the tokens \<open>openid\<close>,
  \<open>profile\<close>, \<open>email\<close>. When it resolves, the client has built the URL and the
  coordinator has started an attempt on it: \<open>authorize\<close> has returned, the agent
  acquisition is the coordinator's one new action and is awaited, with this URL and the
  provider's callback.
\<close>

theorem tryGetAccessToken_native_yields_null:
  "(fst (tryGetAccessTokenWithPopupOrReLogin p opts) = Inr (Some t)
      \<longleftrightarrow> \<not> isNative (clientOpts p) \<and> fst (getAccessTokenWithPopup p opts JUndefined) = Inr t)
   \<and> (isNative (clientOpts p) \<longrightarrow>
        (fst (tryGetAccessTokenWithPopupOrReLogin p opts) = Inr None
           \<or> (\<exists>e. fst (tryGetAccessTokenWithPopupOrReLogin p opts) = Inl (tokenError p e)))
        \<and> snd (tryGetAccessTokenWithPopupOrReLogin p opts)
            = snd (nativeLogIn p (Some (relogin_options (clientOpts p) opts)))
        \<and> client_calls (snd (tryGetAccessTokenWithPopupOrReLogin p opts))
            = client_calls p @ [BuildAuthorizeUrl
                (toAuth0LoginRedirectOptions (Some (relogin_options (clientOpts p) opts)))]
        \<and> (\<exists>r s. toAuth0LoginRedirectOptions (Some (relogin_options (clientOpts p) opts)) = Some r
              \<and> scope r = Some s
              \<and> take 3 (tokens s) = [ustr ''openid'', ustr ''profile'', ustr ''email''])
        \<and> (fst (tryGetAccessTokenWithPopupOrReLogin p opts) = Inr None \<longrightarrow>
             (\<exists>u. client_buildAuthorizeUrl (the_client p)
                    (toAuth0LoginRedirectOptions (Some (relogin_options (clientOpts p) opts))) = Inr u
                 \<and> authorize (coordinator p) u log_outcome
                     = (Returned, coordinator (snd (tryGetAccessTokenWithPopupOrReLogin p opts)))
                 \<and> actions (coordinator (snd (tryGetAccessTokenWithPopupOrReLogin p opts)))
                     = actions (coordinator p) @ [GetAgent]
                 \<and> url (coordinator (snd (tryGetAccessTokenWithPopupOrReLogin p opts))) = u
                 \<and> callback (coordinator (snd (tryGetAccessTokenWithPopupOrReLogin p opts)))
                     = log_outcome
                 \<and> acquiring (coordinator (snd (tryGetAccessTokenWithPopupOrReLogin p opts))))))"
proof -
  let ?ro = "relogin_options (clientOpts p) opts"
  let ?args = "toAuth0LoginRedirectOptions (Some ?ro)"
  let ?c = "coordinator (snd (tryGetAccessTokenWithPopupOrReLogin p opts))"
  obtain s where s: "scope ?ro = Some s"
    "take 3 (tokens s) = [ustr ''openid'', ustr ''profile'', ustr ''email'']"
    using relogin_scope [of "clientOpts p" opts] by blast
  have sc: "\<exists>r s. ?args = Some r \<and> scope r = Some s
              \<and> take 3 (tokens s) = [ustr ''openid'', ustr ''profile'', ustr ''email'']"
    using s by (simp add: toAuth0LoginRedirectOptions_def)
  have tok: "fst (tryGetAccessTokenWithPopupOrReLogin p opts) = Inr (Some t)
      \<longleftrightarrow> \<not> isNative (clientOpts p) \<and> fst (getAccessTokenWithPopup p opts JUndefined) = Inr t"
    by (auto simp add: tryGetAccessTokenWithPopupOrReLogin_def split: prod.splits sum.splits)
  have nat: "isNative (clientOpts p) \<Longrightarrow>
        (fst (tryGetAccessTokenWithPopupOrReLogin p opts) = Inr None
           \<or> (\<exists>e. fst (tryGetAccessTokenWithPopupOrReLogin p opts) = Inl (tokenError p e)))
        \<and> snd (tryGetAccessTokenWithPopupOrReLogin p opts) = snd (nativeLogIn p (Some ?ro))"
    by (auto simp add: tryGetAccessTokenWithPopupOrReLogin_def split: prod.splits sum.splits)
  have ok: "isNative (clientOpts p) \<Longrightarrow> fst (tryGetAccessTokenWithPopupOrReLogin p opts) = Inr None \<Longrightarrow>
      \<exists>u. client_buildAuthorizeUrl (the_client p) ?args = Inr u
         \<and> authorize (coordinator p) u log_outcome = (Returned, ?c)
         \<and> actions ?c = actions (coordinator p) @ [GetAgent]
         \<and> url ?c = u \<and> callback ?c = log_outcome \<and> acquiring ?c"
  proof -
    assume n: "isNative (clientOpts p)"
      and r: "fst (tryGetAccessTokenWithPopupOrReLogin p opts) = Inr None"
    show ?thesis
    proof (cases "client_buildAuthorizeUrl (the_client p) ?args")
      case (Inl e)
      with n r nativeLogIn_rejected [OF Inl] show ?thesis
        by (simp add: tryGetAccessTokenWithPopupOrReLogin_def)
    next
      case (Inr u)
      with n nativeLogIn_resolved [OF Inr] show ?thesis
        by (simp add: tryGetAccessTokenWithPopupOrReLogin_def authorize_log_outcome do_action_def)
    qed
  qed
  from tok nat ok sc show ?thesis
    by (simp add: nativeLogIn_calls)
qed

theorem tryGetAccessToken_native_yields_null_witness:
  "isNative (clientOpts (sample_provider True))
   \<and> fst (tryGetAccessTokenWithPopupOrReLogin (sample_provider True) None) = Inr None
   \<and> client_calls (snd (tryGetAccessTokenWithPopupOrReLogin (sample_provider True) None))
       = [BuildAuthorizeUrl (Some \<lparr>redirectUri = None, redirect_uri = None, audience = None,
            scope = Some (ustr ''openid profile email read:x''), other = []\<rparr>)]
   \<and> actions (coordinator (snd (tryGetAccessTokenWithPopupOrReLogin (sample_provider True) None)))
       = [GetAgent]
   \<and> url (coordinator (snd (tryGetAccessTokenWithPopupOrReLogin (sample_provider True) None)))
       = ustr ''https://tenant.example/authorize''
   \<and> acquiring (coordinator (snd (tryGetAccessTokenWithPopupOrReLogin (sample_provider True) None)))
   \<and> \<not> isNative (clientOpts (sample_provider False))
   \<and> fst (getAccessTokenWithPopup (sample_provider False) None JUndefined) = Inr (ustr ''token'')
   \<and> fst (tryGetAccessTokenWithPopupOrReLogin (sample_provider False) None)
       = Inr (Some (ustr ''token''))"
proof -
  let ?c = "coordinator (snd (tryGetAccessTokenWithPopupOrReLogin (sample_provider True) None))"
  have n: "isNative (clientOpts (sample_provider True))" by (simp add: sample_defs)
  have w: "\<not> isNative (clientOpts (sample_provider False))" by (simp add: sample_defs)
  have c: "client_calls (sample_provider native) = []" for native
    by (simp add: sample_defs)
  have ca: "actions (coordinator (sample_provider True)) = []"
    by (simp add: sample_defs initial_def)
  have bu: "client_buildAuthorizeUrl (the_client (sample_provider True)) a
      = Inr (ustr ''https://tenant.example/authorize'')" for a
    by (simp add: sample_defs)
  have g: "fst (getAccessTokenWithPopup (sample_provider False) None JUndefined)
       = Inr (ustr ''token'')"
    by (simp add: getAccessTokenWithPopup_def sample_defs Let_def)
  have o: "toAuth0LoginRedirectOptions (Some (relogin_options (clientOpts (sample_provider True)) None))
       = Some \<lparr>redirectUri = None, redirect_uri = None, audience = None,
            scope = Some (ustr ''openid profile email read:x''), other = []\<rparr>"
    by (simp add: toAuth0LoginRedirectOptions_def relogin_options_def sample_defs Let_def
          or_else_def or_default_def DEFAULT_SCOPE_def
          getUniqueScopes_def ustr_def trim_def split_ws_def is_space_def dedupe_def set_add_def)
  have r: "fst (tryGetAccessTokenWithPopupOrReLogin (sample_provider True) None) = Inr None"
    by (simp add: tryGetAccessTokenWithPopupOrReLogin_def nativeLogIn_def sample_defs Let_def
          authorize_def log_outcome_def split: prod.splits)
  note t = tryGetAccessToken_native_yields_null
    [of "sample_provider True" None "ustr ''token''"]
  note f = tryGetAccessToken_native_yields_null [of "sample_provider False" None "ustr ''token''"]
  from n t have "client_calls (snd (tryGetAccessTokenWithPopupOrReLogin (sample_provider True) None))
       = client_calls (sample_provider True) @ [BuildAuthorizeUrl
           (toAuth0LoginRedirectOptions (Some (relogin_options (clientOpts (sample_provider True)) None)))]"
    by blast
  then have 1: "client_calls (snd (tryGetAccessTokenWithPopupOrReLogin (sample_provider True) None))
       = [BuildAuthorizeUrl (Some \<lparr>redirectUri = None, redirect_uri = None, audience = None,
            scope = Some (ustr ''openid profile email read:x''), other = []\<rparr>)]"
    by (simp only: c o append_Nil)
  from n r t obtain u where u:
    "client_buildAuthorizeUrl (the_client (sample_provider True))
       (toAuth0LoginRedirectOptions (Some (relogin_options (clientOpts (sample_provider True)) None)))
       = Inr u"
    "actions ?c = actions (coordinator (sample_provider True)) @ [GetAgent]"
    "url ?c = u" "acquiring ?c"
    by blast
  from u(1) have uu: "u = ustr ''https://tenant.example/authorize''" by (simp only: bu sum.inject)
  from u(2) have 3: "actions ?c = [GetAgent]" by (simp only: ca append_Nil)
  from u(3) uu have 4: "url ?c = ustr ''https://tenant.example/authorize''" by (simp only:)
  from w g f have 2: "fst (tryGetAccessTokenWithPopupOrReLogin (sample_provider False) None)
       = Inr (Some (ustr ''token''))"
    by simp
  from n w g r 1 2 3 4 u(4) show ?thesis by (simp only: simp_thms)
qed

end
